theory Spec2Isabelle
  imports Complex_Main "HOL-Library.Multiset"
begin

section \<open>JavaScript strings and numbers\<close>

text \<open>
  A JavaScript string is a sequence of UTF-16 code units; the model keeps the code units
  below 256 (\<^typ>\<open>char\<close>), which cover every character the sources test for
  (digits, \<open>+\<close>, \<open>-\<close>, white space) and the accented letters of their messages.
  \<open>undefined\<close> and \<open>null\<close> are \<^term>\<open>None\<close>.
\<close>

definition isDigit :: "char \<Rightarrow> bool" where
  \<comment> \<open>the class \<open>[0-9]\<close>, the complement of the regular expression's \<open>\D\<close>\<close>
  "isDigit c = (48 \<le> (of_char c :: nat) \<and> (of_char c :: nat) \<le> 57)"

definition digitValue :: "char \<Rightarrow> int" where
  "digitValue c = int (of_char c) - 48"

definition isWhiteSpace :: "char \<Rightarrow> bool" where
  \<comment> \<open>white space and line terminators: TAB, LF, VT, FF, CR, SP, NBSP\<close>
  "isWhiteSpace c = ((of_char c :: nat) \<in> {9, 10, 11, 12, 13, 32, 160})"

definition truthy :: "string option \<Rightarrow> bool" where
  \<comment> \<open>a string value in a condition: \<open>undefined\<close>, \<open>null\<close> and \<open>''\<close> are falsy\<close>
  "truthy v = (case v of None \<Rightarrow> False | Some s \<Rightarrow> s \<noteq> [])"

definition or_else :: "string option \<Rightarrow> string option \<Rightarrow> string option" where
  \<comment> \<open>\<open>a || b\<close>\<close>
  "or_else a b = (if truthy a then a else b)"

definition startsWith :: "string \<Rightarrow> string \<Rightarrow> bool" where
  "startsWith s p = (take (length p) s = p)"

definition substring :: "string \<Rightarrow> nat \<Rightarrow> nat \<Rightarrow> string" where
  \<comment> \<open>\<open>s.substring(a, b)\<close> for \<open>a \<le> b\<close>; both ends are clamped to the length\<close>
  "substring s a b = take (b - a) (drop a s)"

definition substringFrom :: "string \<Rightarrow> nat \<Rightarrow> string" where
  \<comment> \<open>\<open>s.substring(a)\<close>\<close>
  "substringFrom s a = drop a s"

definition charAt :: "string \<Rightarrow> nat \<Rightarrow> string" where
  \<comment> \<open>\<open>s.charAt(k)\<close>: the empty string out of range\<close>
  "charAt s k = (if k < length s then [s ! k] else [])"

definition trim :: "string \<Rightarrow> string" where
  "trim s = rev (dropWhile isWhiteSpace (rev (dropWhile isWhiteSpace s)))"

definition digitsValue :: "string \<Rightarrow> int" where
  "digitsValue ds = foldl (\<lambda>a c. 10 * a + digitValue c) 0 ds"

definition parseInt :: "string \<Rightarrow> int option" where
  \<comment> \<open>\<open>parseInt(s, 10)\<close>: leading white space, an optional sign, then the longest run of
      decimal digits; \<open>NaN\<close> (\<^term>\<open>None\<close>) when that run is empty\<close>
  "parseInt s =
     (let t = dropWhile isWhiteSpace s;
          neg = (case t of [] \<Rightarrow> False | c # _ \<Rightarrow> c = CHR ''-'');
          u = (case t of [] \<Rightarrow> [] | c # r \<Rightarrow> if c = CHR ''-'' \<or> c = CHR ''+'' then r else t);
          ds = takeWhile isDigit u
      in if ds = [] then None else Some ((if neg then - 1 else 1) * digitsValue ds))"

definition num_lt :: "int option \<Rightarrow> int \<Rightarrow> bool" where
  \<comment> \<open>\<open>a < b\<close> on numbers: false when \<open>a\<close> is \<open>NaN\<close>\<close>
  "num_lt a b = (case a of None \<Rightarrow> False | Some x \<Rightarrow> x < b)"

definition num_gt :: "int option \<Rightarrow> int \<Rightarrow> bool" where
  "num_gt a b = (case a of None \<Rightarrow> False | Some x \<Rightarrow> x > b)"

definition includes_num :: "int list \<Rightarrow> int option \<Rightarrow> bool" where
  \<comment> \<open>\<open>Array.prototype.includes\<close> on an array of integers: \<open>NaN\<close> is not among them\<close>
  "includes_num xs a = (case a of None \<Rightarrow> False | Some x \<Rightarrow> x \<in> set xs)"

section \<open>csv.js: ingestion, normalisation and validation of phone numbers\<close>

record contact =
  number :: string
  original :: string
  rowData :: "string \<rightharpoonup> string"

definition stripNonDigits :: "string \<Rightarrow> string" where
  \<comment> \<open>\<open>s.replace(/\D/g, '')\<close>\<close>
  "stripNonDigits s = filter isDigit s"

definition cleanPhoneNumber :: "string \<Rightarrow> string option" where
  "cleanPhoneNumber phoneStr =
     (if phoneStr = [] then None
      else
        let cleaned = stripNonDigits phoneStr in
        if length cleaned = 13 \<and> startsWith cleaned ''55'' then Some cleaned
        else if length cleaned = 11 then Some (''55'' @ cleaned)
        else if length cleaned = 10 then
          (let ddd = substring cleaned 0 2;
               subscriber = substringFrom cleaned 2
           in Some (''55'' @ ddd @ ''9'' @ subscriber))
        else None)"

definition validDDDs :: "int list" where
  "validDDDs =
     [11, 12, 13, 14, 15, 16, 17, 18, 19, 21, 22, 24, 27, 28, 31, 32, 33, 34, 35, 37, 38,
      41, 42, 43, 44, 45, 46, 47, 48, 49, 51, 53, 54, 55, 61, 62, 63, 64, 65, 66, 67, 68,
      69, 71, 73, 74, 75, 77, 79, 81, 82, 83, 84, 85, 86, 87, 88, 89, 91, 92, 93, 94, 95,
      96, 97, 98, 99]"

definition isValidBrazilianNumber :: "string \<Rightarrow> bool" where
  "isValidBrazilianNumber num =
     (if num = [] then False
      else if length num \<noteq> 13 then False
      else if \<not> startsWith num ''55'' then False
      else if charAt num 4 \<noteq> ''9'' then False
      else
        let ddd = parseInt (substring num 2 4) in
        if num_lt ddd 11 \<or> num_gt ddd 99 then False
        else includes_num validDDDs ddd)"

definition validateContacts :: "contact list \<Rightarrow> contact list \<times> nat" where
  \<comment> \<open>the \<open>forEach\<close> pushes each contact on \<open>valid\<close> or \<open>invalid\<close>; the result is
      \<open>{valid, invalid: invalid.length}\<close>\<close>
  "validateContacts contacts =
     (let (valid, invalid) =
        fold (\<lambda>contact (valid, invalid).
                if isValidBrazilianNumber (number contact) then (valid @ [contact], invalid)
                else (valid, invalid @ [contact]))
             contacts ([], [])
      in (valid, length invalid))"

text \<open>
  \<open>parseCSV\<close> reads a file through the external \<open>csv-parser\<close> stream. The model takes what
  that stream delivers: no file, or a sequence of rows (each a dictionary from column
  header to field text) closed by \<open>end\<close> or by an \<open>error\<close> with its message.
\<close>

datatype csv_source = NoFile | Rows "(string \<rightharpoonup> string) list" "string option"

definition on_data :: "(string \<rightharpoonup> string) \<Rightarrow> contact list \<Rightarrow> contact list" where
  \<comment> \<open>the \<open>'data'\<close> handler\<close>
  "on_data row contacts =
     (let phoneNumber = or_else (or_else (row ''number'') (row ''Number'')) (row ''NUMBER'') in
      case phoneNumber of
        None \<Rightarrow> contacts
      | Some p \<Rightarrow>
          if p = [] then contacts
          else (case cleanPhoneNumber p of
                  None \<Rightarrow> contacts
                | Some cleanNumber \<Rightarrow>
                    if cleanNumber = [] then contacts
                    else contacts @ [\<lparr>number = cleanNumber, original = p, rowData = row\<rparr>]))"

definition parseCSV :: "csv_source \<Rightarrow> string + contact list" where
  \<comment> \<open>\<^term>\<open>Inl\<close>: the promise is rejected with this message; \<^term>\<open>Inr\<close>: it resolves\<close>
  "parseCSV src =
     (case src of
        NoFile \<Rightarrow> Inl (''Arquivo CSV n'' @ [char_of (227::nat)] @ ''o encontrado'')
      | Rows rows err \<Rightarrow>
          (let contacts = fold on_data rows [] in
           case err of
             None \<Rightarrow> Inr contacts
           | Some m \<Rightarrow> Inl (''Erro ao processar CSV: '' @ m)))"

definition canonical :: "contact \<Rightarrow> bool" where
  \<comment> \<open>the shape of a normalised number: exactly 13 characters, all digits\<close>
  "canonical c = (length (number c) = 13 \<and> list_all isDigit (number c))"

section \<open>whatsapp.js: the shuffle\<close>

text \<open>
  \<open>shuffleArray\<close> copies its argument and permutes the copy in place. Arrays are objects
  held by reference, so the model keeps a store of arrays: a reference is an index into
  the store, \<open>[...array]\<close> allocates a new array, and an assignment to an element
  updates the array the reference points to.

  \<open>Math.floor(Math.random() * (i + 1))\<close> is an integer between \<open>0\<close> and \<open>i\<close>; the model
  takes these draws as the function \<open>pick\<close>, where \<open>pick i\<close> is the index drawn in the
  iteration with loop counter \<open>i\<close>. The theorems assume \<open>pick i \<le> i\<close> and nothing else
  about the draws.
\<close>

type_synonym 'a store = "'a list list"

definition alloc_array :: "'a list \<Rightarrow> 'a store \<Rightarrow> nat \<times> 'a store" where
  "alloc_array xs st = (length st, st @ [xs])"

definition array_get :: "'a store \<Rightarrow> nat \<Rightarrow> nat \<Rightarrow> 'a" where
  "array_get st r k = st ! r ! k"

definition array_set :: "'a store \<Rightarrow> nat \<Rightarrow> nat \<Rightarrow> 'a \<Rightarrow> 'a store" where
  "array_set st r k v = st[r := (st ! r)[k := v]]"

fun shuffle_loop :: "(nat \<Rightarrow> nat) \<Rightarrow> nat \<Rightarrow> nat \<Rightarrow> 'a store \<Rightarrow> 'a store" where
  \<comment> \<open>\<open>for (let i = ...; i > 0; i--)\<close>, from the value of \<open>i\<close> given; the body is the
      destructuring swap: the right-hand side \<open>[shuffled[j], shuffled[i]]\<close> is read
      first, then \<open>shuffled[i]\<close> and \<open>shuffled[j]\<close> are written in this order\<close>
  "shuffle_loop pick shuffled 0 st = st"
| "shuffle_loop pick shuffled (Suc k) st =
     (let i = Suc k;
          j = pick i;
          vj = array_get st shuffled j;
          vi = array_get st shuffled i;
          st1 = array_set st shuffled i vj;
          st2 = array_set st1 shuffled j vi
      in shuffle_loop pick shuffled k st2)"

definition shuffleArray :: "(nat \<Rightarrow> nat) \<Rightarrow> nat \<Rightarrow> 'a store \<Rightarrow> nat \<times> 'a store" where
  \<comment> \<open>the result is the reference of the new array and the store after the call\<close>
  "shuffleArray pick array st =
     (let (shuffled, st1) = alloc_array (st ! array) st
      in (shuffled, shuffle_loop pick shuffled (length (st1 ! shuffled) - 1) st1))"

definition shuffled_copy :: "(nat \<Rightarrow> nat) \<Rightarrow> 'a list \<Rightarrow> 'a list" where
  \<comment> \<open>\<open>this.shuffleArray([...contacts])\<close>: the value of the array returned, when the
      argument array holds \<open>xs\<close>\<close>
  "shuffled_copy pick xs =
     (let (copy, st1) = alloc_array xs [];
          (shuffled, st2) = shuffleArray pick copy st1
      in st2 ! shuffled)"

fun fisher_yates :: "(nat \<Rightarrow> nat) \<Rightarrow> nat \<Rightarrow> 'a list \<Rightarrow> 'a list" where
  \<comment> \<open>the loop of \<open>shuffleArray\<close> on the value of the array alone\<close>
  "fisher_yates pick 0 xs = xs"
| "fisher_yates pick (Suc k) xs =
     fisher_yates pick k (xs[Suc k := xs ! pick (Suc k), pick (Suc k) := xs ! Suc k])"

definition shuffle_result :: "(nat \<Rightarrow> nat) \<Rightarrow> nat \<Rightarrow> 'a store \<Rightarrow> 'a list" where
  \<comment> \<open>the contents of the array that \<open>shuffleArray\<close> returns\<close>
  "shuffle_result pick array st = (case shuffleArray pick array st of (shuffled, st') \<Rightarrow> st' ! shuffled)"

definition valid_picks :: "nat \<Rightarrow> (nat \<Rightarrow> nat) \<Rightarrow> bool" where
  \<comment> \<open>the draws of a run on an array of length \<open>n\<close>: one for each \<open>i\<close> from \<open>n - 1\<close> down to
      \<open>1\<close>, each between \<open>0\<close> and \<open>i\<close>\<close>
  "valid_picks n pick = (\<forall>i \<in> {1..<n}. pick i \<le> i)"

section \<open>JavaScript numbers\<close>

text \<open>
  Numbers are IEEE 754 doubles. The counters of a campaign and the clock are
  non-negative integers far below \<open>2\<^sup>5\<^sup>3\<close> and are kept as natural numbers. The
  progress percentage and the duration are computed with a division, a multiplication
  and \<open>Math.round\<close>; their double results are modelled exactly: a finite double is the
  rational number it denotes, and \<open>fl\<close> rounds a rational to the nearest double, ties to
  the even significand (normal range only: 53-bit significands, no overflow or
  underflow, which quotients of such integers never reach).
\<close>

fun bitLength :: "nat \<Rightarrow> nat" where
  "bitLength n = (if n = 0 then 0 else Suc (bitLength (n div 2)))"

declare bitLength.simps [simp del]

definition pow2 :: "int \<Rightarrow> rat" where
  "pow2 e = (if 0 \<le> e then 2 ^ nat e else 1 / 2 ^ nat (- e))"

definition binade :: "rat \<Rightarrow> int" where
  \<comment> \<open>for \<open>x > 0\<close>: the exponent \<open>e\<close> with \<open>2\<^sup>e \<le> x < 2\<^sup>e\<^sup>+\<^sup>1\<close>\<close>
  "binade x =
     (if 1 \<le> x then int (bitLength (nat \<lfloor>x\<rfloor>)) - 1
      else - int (bitLength (nat (\<lceil>1 / x\<rceil> - 1))))"

definition round_half_even :: "rat \<Rightarrow> int" where
  "round_half_even x =
     (let f = \<lfloor>x\<rfloor>; r = x - of_int f
      in if r < 1 / 2 then f else if 1 / 2 < r then f + 1 else if even f then f else f + 1)"

definition fl :: "rat \<Rightarrow> rat" where
  "fl x =
     (if x = 0 then 0
      else
        let a = \<bar>x\<bar>;
            ulp = pow2 (binade a - 52);
            m = round_half_even (a / ulp)
        in sgn x * of_int m * ulp)"

datatype jsnum = Num rat | Infinity | NaN

definition js_div :: "rat \<Rightarrow> rat \<Rightarrow> jsnum" where
  \<comment> \<open>\<open>a / b\<close> for \<open>a \<ge> 0\<close> and \<open>b \<ge> 0\<close>\<close>
  "js_div a b = (if b = 0 then (if a = 0 then NaN else Infinity) else Num (fl (a / b)))"

definition js_mul :: "jsnum \<Rightarrow> rat \<Rightarrow> jsnum" where
  \<comment> \<open>\<open>x * c\<close> for a constant \<open>c > 0\<close>\<close>
  "js_mul x c = (case x of Num a \<Rightarrow> Num (fl (a * c)) | Infinity \<Rightarrow> Infinity | NaN \<Rightarrow> NaN)"

definition mathRound :: "jsnum \<Rightarrow> jsnum" where
  \<comment> \<open>\<open>Math.round\<close>: the nearest integer, ties towards \<open>+\<infinity>\<close>\<close>
  "mathRound x =
     (case x of Num a \<Rightarrow> Num (of_int \<lfloor>a + 1 / 2\<rfloor>) | Infinity \<Rightarrow> Infinity | NaN \<Rightarrow> NaN)"

section \<open>whatsapp.js: sending one message\<close>

text \<open>
  \<open>sendMessage\<close> talks to the transport (\<open>this.sock\<close>) and to the file system. What they
  answer during one call is the environment of the call: \<open>onWhatsApp\<close> rejects with a
  message or resolves to an array of results, of which the model keeps whether
  \<open>exists\<close> is truthy; \<open>readFileSync\<close> throws or returns the contents; \<open>sockSendMessage\<close>
  is \<open>this.sock.sendMessage\<close>, which rejects with a message (\<^term>\<open>Some\<close>) or resolves;
  \<open>extnameLower p\<close> is \<open>path.extname(p).toLowerCase()\<close>.
\<close>

datatype content =
    ImageMessage string "string option" string  \<comment> \<open>\<open>{image, caption, mimetype}\<close>\<close>
  | AudioMessage string string bool  \<comment> \<open>\<open>{audio, mimetype, ptt}\<close>\<close>
  | TextMessage string  \<comment> \<open>\<open>{text}\<close>\<close>

record env =
  onWhatsApp :: "string \<Rightarrow> string + bool list"
  existsSync :: "string \<Rightarrow> bool"
  readFileSync :: "string \<Rightarrow> string + string"
  extnameLower :: "string \<Rightarrow> string"
  sockSendMessage :: "string \<Rightarrow> content \<Rightarrow> string option"

type_synonym dispatch = "string \<times> content"

definition sendImage ::
  "env \<Rightarrow> string \<Rightarrow> string option \<Rightarrow> string option \<Rightarrow> dispatch list \<times> string option" where
  \<comment> \<open>the block \<open>if (imagePath && fs.existsSync(imagePath))\<close>: the calls of
      \<open>sock.sendMessage\<close> made, and the message of the error thrown, if any\<close>
  "sendImage e jid imagePath message =
     (case imagePath of
        None \<Rightarrow> ([], None)
      | Some p \<Rightarrow>
          if p \<noteq> [] \<and> existsSync e p then
            (case readFileSync e p of
               Inl err \<Rightarrow> ([], Some err)
             | Inr imageBuffer \<Rightarrow>
                 let extension = extnameLower e p;
                     mimetype =
                       (if extension = ''.png'' then ''image/png''
                        else if extension = ''.gif'' then ''image/gif''
                        else if extension = ''.webp'' then ''image/webp''
                        else ''image/jpeg'');
                     c = ImageMessage imageBuffer message mimetype
                 in ([(jid, c)], sockSendMessage e jid c))
          else ([], None))"

definition sendAudio :: "env \<Rightarrow> string \<Rightarrow> string option \<Rightarrow> dispatch list \<times> string option" where
  \<comment> \<open>the block \<open>if (audioPath && fs.existsSync(audioPath))\<close>\<close>
  "sendAudio e jid audioPath =
     (case audioPath of
        None \<Rightarrow> ([], None)
      | Some p \<Rightarrow>
          if p \<noteq> [] \<and> existsSync e p then
            (case readFileSync e p of
               Inl err \<Rightarrow> ([], Some err)
             | Inr audioBuffer \<Rightarrow>
                 let c = AudioMessage audioBuffer ''audio/mp4'' True
                 in ([(jid, c)], sockSendMessage e jid c))
          else ([], None))"

definition sendText ::
  "env \<Rightarrow> string \<Rightarrow> string option \<Rightarrow> string option \<Rightarrow> string option \<Rightarrow>
   dispatch list \<times> string option" where
  \<comment> \<open>the block \<open>if (!imagePath && !audioPath && message && message.trim() !== '')\<close>\<close>
  "sendText e jid imagePath audioPath message =
     (if \<not> truthy imagePath \<and> \<not> truthy audioPath \<and> truthy message \<and>
         trim (case message of None \<Rightarrow> [] | Some m \<Rightarrow> m) \<noteq> []
      then (let c = TextMessage (case message of None \<Rightarrow> [] | Some m \<Rightarrow> m)
            in ([(jid, c)], sockSendMessage e jid c))
      else ([], None))"

definition notOnWhatsApp :: string where
  \<comment> \<open>\<open>N\<uacute>mero n\<atilde>o existe no WhatsApp\<close>\<close>
  "notOnWhatsApp =
     ''N'' @ [char_of (250::nat)] @ ''mero n'' @ [char_of (227::nat)] @ ''o existe no WhatsApp''"

definition sendMessage ::
  "env \<Rightarrow> contact \<Rightarrow> string option \<Rightarrow> string option \<Rightarrow> string option \<Rightarrow>
   dispatch list \<times> (string + bool)" where
  \<comment> \<open>the calls of \<open>sock.sendMessage\<close> made, in order, and the outcome: \<^term>\<open>Inr True\<close>
      when the function returns \<open>true\<close>, \<^term>\<open>Inl\<close> with the message of the error it
      throws from its \<open>catch\<close> block\<close>
  "sendMessage e contact imagePath audioPath message =
     (let phoneNumber = number contact;
          jid = phoneNumber @ ''@s.whatsapp.net''
      in case onWhatsApp e jid of
           Inl err \<Rightarrow> ([], Inl (''Falha no envio: '' @ err))
         | Inr results \<Rightarrow>
             if \<not> (case results of [] \<Rightarrow> False | result # _ \<Rightarrow> result)
             then ([], Inl (''Falha no envio: '' @ notOnWhatsApp))
             else
               (case sendImage e jid imagePath message of
                  (cs1, Some err) \<Rightarrow> (cs1, Inl (''Falha no envio: '' @ err))
                | (cs1, None) \<Rightarrow>
                    (case sendAudio e jid audioPath of
                       (cs2, Some err) \<Rightarrow> (cs1 @ cs2, Inl (''Falha no envio: '' @ err))
                     | (cs2, None) \<Rightarrow>
                         (case sendText e jid imagePath audioPath message of
                            (cs3, Some err) \<Rightarrow>
                              (cs1 @ cs2 @ cs3, Inl (''Falha no envio: '' @ err))
                          | (cs3, None) \<Rightarrow> (cs1 @ cs2 @ cs3, Inr True)))))"

section \<open>whatsapp.js: the campaign engine\<close>

text \<open>
  \<open>WhatsAppService\<close> keeps \<open>isConnected\<close>, \<open>isSending\<close> and \<open>currentCampaign\<close>;
  \<open>startBulkSend\<close> is an \<open>async\<close> function, so a call runs until its first \<open>await\<close>
  and is resumed later, while other calls (\<open>stopBulkSend\<close>, another \<open>startBulkSend\<close>)
  run in between on the same object. The model is the event loop written out: a world
  holds the fields of the service, the suspended calls of \<open>startBulkSend\<close> (tasks) with
  their local variables, and what has been observed so far (the events given to
  \<open>io.emit\<close>, the contacts whose send was begun, the calls of \<open>sock.sendMessage\<close>, the
  clock). An action is one turn of the event loop; a schedule is a list of actions.
\<close>

record campaign =
  contacts :: "contact list"
  imagePath :: "string option"
  message :: "string option"
  sent :: nat
  failed :: nat
  total :: nat
  startTime :: nat

datatype event =
    CampaignStarted nat nat  \<comment> \<open>\<open>{total, startTime}\<close>\<close>
  | CampaignProgress nat nat nat string "string option" jsnum
      \<comment> \<open>\<open>{sent, failed, total, current, error, progress}\<close>; \<open>error\<close> is absent on success\<close>
  | CampaignStopped
  | CampaignFinished nat nat nat jsnum  \<comment> \<open>\<open>{sent, failed, total, duration}\<close>\<close>

datatype suspension =
    AwaitSend  \<comment> \<open>at \<open>await this.sendMessage(...)\<close>\<close>
  | AwaitSleep nat  \<comment> \<open>at \<open>await this.sleep(delay)\<close>; the time at which the timer fires\<close>
  | Returned  \<comment> \<open>the call has run to its end\<close>

record task =
  shuffledContacts :: "contact list"
  loop_i :: nat
  arg_imagePath :: "string option"
  arg_audioPath :: "string option"
  arg_message :: "string option"
  waiting :: suspension

record world =
  isConnected :: bool
  isSending :: bool
  currentCampaign :: "campaign option"
  tasks :: "task list"
  emitted :: "event list"
  attempts :: "string list"
  dispatched :: "dispatch list"
  clock :: nat

definition progress_of :: "campaign \<Rightarrow> jsnum" where
  \<comment> \<open>\<open>Math.round((sent + failed) / total * 100)\<close>\<close>
  "progress_of c = mathRound (js_mul (js_div (of_nat (sent c + failed c)) (of_nat (total c))) 100)"

definition finish :: "nat \<Rightarrow> task \<Rightarrow> world \<Rightarrow> world" where
  \<comment> \<open>the code after the loop. \<open>currentCampaign\<close> is never \<open>null\<close> here, since a task
      exists only after a campaign was stored; the model lets the call end without an
      event in that case, as the \<open>TypeError\<close> would\<close>
  "finish tid t w =
     (let w1 = w\<lparr>isSending := False, tasks := (tasks w)[tid := t\<lparr>waiting := Returned\<rparr>]\<rparr>;
          endTime = clock w1
      in case currentCampaign w1 of
           None \<Rightarrow> w1
         | Some c \<Rightarrow>
             let duration = mathRound (js_div (of_nat endTime - of_nat (startTime c)) 1000)
             in w1\<lparr>emitted := emitted w1 @
                     [CampaignFinished (sent c) (failed c) (total c) duration]\<rparr>)"

definition loop_head :: "nat \<Rightarrow> task \<Rightarrow> world \<Rightarrow> world" where
  \<comment> \<open>the loop condition \<open>i < shuffledContacts.length && this.isSending\<close> and, when it
      holds, the body up to \<open>await this.sendMessage(...)\<close>: the line
      \<open>Enviando para: ...\<close> is logged and the send begins\<close>
  "loop_head tid t w =
     (if loop_i t < length (shuffledContacts t) \<and> isSending w
      then w\<lparr>tasks := (tasks w)[tid := t\<lparr>waiting := AwaitSend\<rparr>],
              attempts := attempts w @ [number (shuffledContacts t ! loop_i t)]\<rparr>
      else finish tid t w)"

definition notConnected :: string where
  \<comment> \<open>\<open>WhatsApp n\<atilde>o est\<aacute> conectado\<close>\<close>
  "notConnected =
     ''WhatsApp n'' @ [char_of (227::nat)] @ ''o est'' @ [char_of (225::nat)] @ '' conectado''"

definition alreadyRunning :: string where
  \<comment> \<open>\<open>Uma campanha j\<aacute> est\<aacute> em andamento\<close>\<close>
  "alreadyRunning =
     ''Uma campanha j'' @ [char_of (225::nat)] @ '' est'' @ [char_of (225::nat)] @
     '' em andamento''"

definition startBulkSend ::
  "contact list \<Rightarrow> string option \<Rightarrow> string option \<Rightarrow> string option \<Rightarrow> (nat \<Rightarrow> nat) \<Rightarrow>
   world \<Rightarrow> string option \<times> world" where
  \<comment> \<open>the call up to its first \<open>await\<close> (or to its end): the error it is rejected with,
      if any, and the world after it. \<open>pick\<close> are the draws of the shuffle\<close>
  "startBulkSend cs img aud msg pick w =
     (if \<not> isConnected w then (Some notConnected, w)
      else if isSending w then (Some alreadyRunning, w)
      else
        let c = \<lparr>contacts = cs, imagePath = img, message = msg, sent = 0, failed = 0,
                 total = length cs, startTime = clock w\<rparr>;
            w1 = w\<lparr>isSending := True, currentCampaign := Some c,
                   emitted := emitted w @ [CampaignStarted (total c) (startTime c)]\<rparr>;
            t = \<lparr>shuffledContacts = shuffled_copy pick cs, loop_i = 0, arg_imagePath = img,
                 arg_audioPath = aud, arg_message = msg, waiting = AwaitSend\<rparr>;
            tid = length (tasks w1)
        in (None, loop_head tid t (w1\<lparr>tasks := tasks w1 @ [t]\<rparr>)))"

definition stopBulkSend :: "world \<Rightarrow> world" where
  "stopBulkSend w = w\<lparr>isSending := False, emitted := emitted w @ [CampaignStopped]\<rparr>"

definition send_settles :: "nat \<Rightarrow> env \<Rightarrow> nat \<Rightarrow> world \<Rightarrow> world" where
  \<comment> \<open>the task \<open>tid\<close> is resumed when its \<open>sendMessage\<close> has settled: the \<open>try\<close> or the
      \<open>catch\<close> branch, then the pacing test; \<open>delay\<close> is the value drawn for
      \<open>Math.floor(Math.random() * (60000 - 30000) + 30000)\<close>\<close>
  "send_settles tid e delay w =
     (if tid < length (tasks w) \<and> waiting (tasks w ! tid) = AwaitSend then
        let t = tasks w ! tid;
            contact = shuffledContacts t ! loop_i t;
            (calls, outcome) =
              sendMessage e contact (arg_imagePath t) (arg_audioPath t) (arg_message t);
            w1 = w\<lparr>dispatched := dispatched w @ calls\<rparr>
        in case currentCampaign w1 of
             None \<Rightarrow> w1\<lparr>tasks := (tasks w1)[tid := t\<lparr>waiting := Returned\<rparr>]\<rparr>
           | Some c \<Rightarrow>
               let c' = (case outcome of
                           Inr _ \<Rightarrow> c\<lparr>sent := sent c + 1\<rparr>
                         | Inl _ \<Rightarrow> c\<lparr>failed := failed c + 1\<rparr>);
                   ev = CampaignProgress (sent c') (failed c') (total c') (number contact)
                          (case outcome of Inr _ \<Rightarrow> None | Inl err \<Rightarrow> Some err)
                          (progress_of c');
                   w2 = w1\<lparr>currentCampaign := Some c', emitted := emitted w1 @ [ev]\<rparr>
               in if int (loop_i t) < int (length (shuffledContacts t)) - 1 \<and> isSending w2
                  then w2\<lparr>tasks := (tasks w2)[tid := t\<lparr>waiting := AwaitSleep (clock w2 + delay)\<rparr>]\<rparr>
                  else loop_head tid (t\<lparr>loop_i := loop_i t + 1\<rparr>) w2
      else w)"

definition timer_fires :: "nat \<Rightarrow> world \<Rightarrow> world" where
  \<comment> \<open>the task \<open>tid\<close> is resumed from \<open>sleep\<close>: \<open>setTimeout\<close> calls \<open>resolve\<close> once the delay
      has passed, and nothing else does\<close>
  "timer_fires tid w =
     (if tid < length (tasks w) then
        (case waiting (tasks w ! tid) of
           AwaitSleep wake \<Rightarrow>
             if wake \<le> clock w
             then loop_head tid ((tasks w ! tid)\<lparr>loop_i := loop_i (tasks w ! tid) + 1\<rparr>) w
             else w
         | _ \<Rightarrow> w)
      else w)"

datatype action =
    CallStart "contact list" "string option" "string option" "string option" "nat \<Rightarrow> nat"
      \<comment> \<open>\<open>startBulkSend(contacts, imagePath, audioPath, message)\<close> and its shuffle draws\<close>
  | CallStop  \<comment> \<open>\<open>stopBulkSend()\<close>\<close>
  | SendSettles nat env nat
      \<comment> \<open>the \<open>sendMessage\<close> of a task settles, in this environment; the delay drawn\<close>
  | TimerFires nat  \<comment> \<open>the sleep of a task ends\<close>
  | Elapse nat  \<comment> \<open>time passes, in milliseconds\<close>

fun step :: "action \<Rightarrow> world \<Rightarrow> world" where
  \<comment> \<open>an action that cannot happen in a world (a task that is not waiting for it, a timer
      before its time) leaves the world as it is\<close>
  "step (CallStart cs img aud msg pick) w = snd (startBulkSend cs img aud msg pick w)"
| "step CallStop w = stopBulkSend w"
| "step (SendSettles tid e delay) w = send_settles tid e delay w"
| "step (TimerFires tid) w = timer_fires tid w"
| "step (Elapse ms) w = w\<lparr>clock := clock w + ms\<rparr>"

definition run :: "action list \<Rightarrow> world \<Rightarrow> world" where
  "run sched w = fold step sched w"

definition is_start :: "action \<Rightarrow> bool" where
  "is_start a = (case a of CallStart _ _ _ _ _ \<Rightarrow> True | _ \<Rightarrow> False)"

definition is_stop :: "action \<Rightarrow> bool" where
  "is_stop a = (case a of CallStop \<Rightarrow> True | _ \<Rightarrow> False)"

section \<open>Observations on a run\<close>

fun progress_counts :: "event list \<Rightarrow> (nat \<times> nat) list" where
  \<comment> \<open>\<open>sent\<close> and \<open>failed\<close> of the \<open>campaign-progress\<close> events, in order\<close>
  "progress_counts [] = []"
| "progress_counts (CampaignProgress s f t cur err p # es) = (s, f) # progress_counts es"
| "progress_counts (_ # es) = progress_counts es"

fun finished_counts :: "event list \<Rightarrow> (nat \<times> nat \<times> nat) list" where
  \<comment> \<open>\<open>sent\<close>, \<open>failed\<close> and \<open>total\<close> of the \<open>campaign-finished\<close> events, in order\<close>
  "finished_counts [] = []"
| "finished_counts (CampaignFinished s f t d # es) = (s, f, t) # finished_counts es"
| "finished_counts (_ # es) = finished_counts es"

definition fresh :: "world \<Rightarrow> bool" where
  \<comment> \<open>a service on which no campaign has run yet: no call of \<open>startBulkSend\<close> is pending,
      nothing has been emitted or attempted, and \<open>isSending\<close> is \<open>false\<close>\<close>
  "fresh w = (tasks w = [] \<and> emitted w = [] \<and> attempts w = [] \<and> \<not> isSending w)"

definition no_start :: "action list \<Rightarrow> bool" where
  "no_start sched = list_all (\<lambda>a. \<not> is_start a) sched"

definition no_stop :: "action list \<Rightarrow> bool" where
  "no_stop sched = list_all (\<lambda>a. \<not> is_stop a) sched"

section \<open>Concrete inputs\<close>

text \<open>The concrete inputs at which the theorems below are instantiated or refuted.\<close>

definition wit9_source :: csv_source where
  "wit9_source = Rows [[''Number'' \<mapsto> ''11 3123-4567'']] None"

definition wit9_contact :: contact where
  "wit9_contact =
     \<lparr>number = ''5511931234567'', original = ''11 3123-4567'',
      rowData = [''Number'' \<mapsto> ''11 3123-4567'']\<rparr>"

definition cex9_source :: csv_source where
  "cex9_source = Rows [[''number'' \<mapsto> ''21888888888'']] None"

definition cex9_contact :: contact where
  "cex9_contact =
     \<lparr>number = ''5521888888888'', original = ''21888888888'',
      rowData = [''number'' \<mapsto> ''21888888888'']\<rparr>"

definition contact1 :: contact where
  "contact1 = \<lparr>number = ''5511999999991'', original = ''11999999991'', rowData = Map.empty\<rparr>"

definition contact2 :: contact where
  "contact2 = \<lparr>number = ''5521999999992'', original = ''21999999992'', rowData = Map.empty\<rparr>"

definition env_ok :: env where
  \<comment> \<open>every number is registered, every file exists and every send succeeds\<close>
  "env_ok =
     \<lparr>onWhatsApp = (\<lambda>jid. Inr [True]), existsSync = (\<lambda>p. True),
      readFileSync = (\<lambda>p. Inr (''contents of '' @ p)), extnameLower = (\<lambda>p. ''.png''),
      sockSendMessage = (\<lambda>jid c. None)\<rparr>"

definition env_unregistered :: env where
  \<comment> \<open>as \<open>env_ok\<close>, but no number is registered\<close>
  "env_unregistered = env_ok\<lparr>onWhatsApp := (\<lambda>jid. Inr [False])\<rparr>"

definition connected_world :: world where
  \<comment> \<open>the service after its constructor and the \<open>connection.update\<close> event \<open>open\<close>\<close>
  "connected_world =
     \<lparr>isConnected = True, isSending = False, currentCampaign = None, tasks = [],
      emitted = [], attempts = [], dispatched = [], clock = 0\<rparr>"

definition keep_order :: "nat \<Rightarrow> nat" where
  \<comment> \<open>the draws \<open>j = i\<close>: every swap leaves the array as it is\<close>
  "keep_order i = i"

definition stop_during_delay :: "action list" where
  \<comment> \<open>two contacts; the first send succeeds and a delay of 30 s begins; \<open>stop\<close> is called
      1 s later; the timer is tried just before the 30 s are over\<close>
  "stop_during_delay =
     [CallStart [contact1, contact2] None None (Some ''hello'') keep_order,
      SendSettles 0 env_ok 30000, Elapse 1000, CallStop, Elapse 28999, TimerFires 0]"

definition stop_during_send :: "action list" where
  \<comment> \<open>two contacts; \<open>stop\<close> is called while the first send is in flight\<close>
  "stop_during_send =
     [CallStart [contact1, contact2] None None (Some ''hello'') keep_order,
      Elapse 500, CallStop, Elapse 500, SendSettles 0 env_ok 30000]"

section \<open>Properties of the number normaliser and validator\<close>

subsection \<open>Helper facts\<close>

lemma startsWith_55: "startsWith s ''55'' = (take 2 s = ''55'')"
  by (simp add: startsWith_def numeral_2_eq_2)

lemma validDDDs_range: "d \<in> set validDDDs \<Longrightarrow> 11 \<le> d \<and> d \<le> 99"
  by (auto simp: validDDDs_def)

lemma validDDDs_set:
  "set validDDDs =
     {11, 12, 13, 14, 15, 16, 17, 18, 19, 21, 22, 24, 27, 28, 31, 32, 33, 34, 35, 37, 38, 41, 42,
      43, 44, 45, 46, 47, 48, 49, 51, 53, 54, 55, 61, 62, 63, 64, 65, 66, 67, 68, 69, 71, 73, 74,
      75, 77, 79, 81, 82, 83, 84, 85, 86, 87, 88, 89, 91, 92, 93, 94, 95, 96, 97, 98, 99}"
  by (simp add: validDDDs_def)

lemma substring_2_4: "length n = 13 \<Longrightarrow> substring n 2 4 = [n ! 2, n ! 3]"
proof -
  assume len: "length n = 13"
  have "take 2 (drop 2 n) = [drop 2 n ! 0, drop 2 n ! 1]"
    by (rule nth_equalityI) (use len in \<open>auto simp: less_Suc_eq numeral_2_eq_2\<close>)
  thus ?thesis using len by (simp add: substring_def)
qed

lemma ddd_check:
  "(\<not> num_lt ddd 11 \<and> \<not> num_gt ddd 99 \<and> includes_num validDDDs ddd) =
   (case ddd of None \<Rightarrow> False | Some d \<Rightarrow> d \<in> set validDDDs)"
  by (cases ddd) (auto simp: num_lt_def num_gt_def includes_num_def dest: validDDDs_range)

lemma digitValue_range: "isDigit c \<Longrightarrow> 0 \<le> digitValue c \<and> digitValue c \<le> 9"
  by (auto simp: isDigit_def digitValue_def)

lemma digitsValue_single: "digitsValue [c] = digitValue c"
  by (simp add: digitsValue_def)

text \<open>
  On a two-character string \<open>parseInt\<close> yields a two-digit value only from two digits:
  with white space, a sign or any other character in it the result is \<open>NaN\<close> or a
  one-digit value, which the allow-list never holds.
\<close>

lemma parseInt_two_digits:
  "isDigit a \<Longrightarrow> isDigit b \<Longrightarrow> parseInt [a, b] = Some (10 * digitValue a + digitValue b)"
  by (auto simp: parseInt_def isWhiteSpace_def isDigit_def digitsValue_def digitValue_def Let_def)

lemma parseInt_two_chars_small:
  assumes "\<not> (isDigit a \<and> isDigit b)" and "parseInt [a, b] = Some d"
  shows "- 9 \<le> d \<and> d \<le> 9"
  using assms digitValue_range[of a] digitValue_range[of b]
  by (auto simp: parseInt_def Let_def digitsValue_single split: if_splits)

lemma cleanPhoneNumber_unfold:
  "cleanPhoneNumber raw =
     (if raw = [] then None
      else if length (filter isDigit raw) = 13 \<and> take 2 (filter isDigit raw) = ''55''
        then Some (filter isDigit raw)
      else if length (filter isDigit raw) = 11 then Some (''55'' @ filter isDigit raw)
      else if length (filter isDigit raw) = 10
        then Some (''55'' @ take 2 (filter isDigit raw) @ ''9'' @ drop 2 (filter isDigit raw))
      else None)"
  by (simp add: cleanPhoneNumber_def stripNonDigits_def startsWith_55 substring_def
        substringFrom_def Let_def)

lemma cleanPhoneNumber_Some:
  assumes h: "cleanPhoneNumber p = Some c"
  shows "length c = 13 \<and> set c \<subseteq> Collect isDigit"
proof -
  let ?d = "filter isDigit p"
  have k: "CHR ''5'' \<in> Collect isDigit" "CHR ''9'' \<in> Collect isDigit"
    by (simp_all add: isDigit_def)
  have d: "set ?d \<subseteq> Collect isDigit" by auto
  have t: "set (take 2 ?d) \<subseteq> Collect isDigit" "set (drop 2 ?d) \<subseteq> Collect isDigit"
    using set_take_subset[of 2 ?d] set_drop_subset[of 2 ?d] d by blast+
  show ?thesis
  proof (cases "length ?d = 13 \<and> take 2 ?d = ''55''")
    case True
    with h have "c = ?d" by (simp add: cleanPhoneNumber_unfold split: if_splits)
    moreover have "length ?d = 13" using True by (rule conjunct1)
    ultimately show ?thesis using d by blast
  next
    case n13: False
    show ?thesis
    proof (cases "length ?d = 11")
      case True
      with h n13 have c: "c = ''55'' @ ?d"
        by (simp add: cleanPhoneNumber_unfold split: if_splits)
      have "length c = 13" unfolding c using True by simp
      moreover have "set c \<subseteq> Collect isDigit"
        unfolding c using k d by (simp del: set_filter)
      ultimately show ?thesis by blast
    next
      case n11: False
      show ?thesis
      proof (cases "length ?d = 10")
        case True
        with h n13 n11 have c: "c = ''55'' @ take 2 ?d @ ''9'' @ drop 2 ?d"
          by (simp add: cleanPhoneNumber_unfold split: if_splits)
        have "length c = 13" unfolding c using True by simp
        moreover have "set c \<subseteq> Collect isDigit"
          unfolding c using k t by (simp del: set_filter)
        ultimately show ?thesis by blast
      next
        case False
        with h n13 n11 show ?thesis by (simp add: cleanPhoneNumber_unfold split: if_splits)
      qed
    qed
  qed
qed

lemma on_data_inv: "list_all canonical acc \<Longrightarrow> list_all canonical (on_data row acc)"
proof -
  assume a: "list_all canonical acc"
  show ?thesis
  proof (cases "or_else (or_else (row ''number'') (row ''Number'')) (row ''NUMBER'')")
    case None
    thus ?thesis using a by (simp add: on_data_def)
  next
    case (Some p)
    show ?thesis
    proof (cases "cleanPhoneNumber p")
      case None
      thus ?thesis using a Some by (simp add: on_data_def)
    next
      case (Some c)
      from cleanPhoneNumber_Some[OF Some]
      have "canonical \<lparr>number = c, original = p, rowData = row\<rparr>"
        by (auto simp: canonical_def list_all_iff)
      thus ?thesis using a Some \<open>_ = Some p\<close> by (simp add: on_data_def)
    qed
  qed
qed

lemma fold_on_data_inv:
  "list_all canonical acc \<Longrightarrow> list_all canonical (fold on_data rows acc)"
  by (induction rows arbitrary: acc) (simp_all add: on_data_inv)

lemma fold_partition:
  "fold (\<lambda>contact (valid, invalid).
           if P contact then (valid @ [contact], invalid) else (valid, invalid @ [contact]))
        cs (v, i)
   = (v @ filter P cs, i @ filter (\<lambda>c. \<not> P c) cs)"
  by (induction cs arbitrary: v i) auto

lemma validateContacts_eq:
  "validateContacts cs =
     (filter (\<lambda>c. isValidBrazilianNumber (number c)) cs,
      length (filter (\<lambda>c. \<not> isValidBrazilianNumber (number c)) cs))"
  by (simp add: validateContacts_def fold_partition)

lemma isValid_marker: "isValidBrazilianNumber n \<Longrightarrow> n ! 4 = CHR ''9''"
  by (auto simp: isValidBrazilianNumber_def charAt_def split: if_splits)

lemma valid_example: "isValidBrazilianNumber ''5511931234567''"
  by (simp add: isValidBrazilianNumber_def startsWith_def charAt_def substring_def parseInt_def
        isWhiteSpace_def isDigit_def digitsValue_def digitValue_def num_lt_def num_gt_def
        includes_num_def validDDDs_def Let_def)

subsection \<open>The validator\<close>

text \<open>
  Claim C4. For every string \<open>n\<close>, \<open>isValidBrazilianNumber\<close> accepts \<open>n\<close> if and only if \<open>n\<close>
  has exactly 13 characters, starts with \<open>55\<close>, has the character \<open>9\<close> at index 4, and
  the integer that \<open>parseInt\<close> reads from the characters at indices 2 and 3 is a member of
  the allow-list of area codes, written out here as the claim gives it; the list of the
  source has 67 entries, all different. The range test \<open>11..99\<close> of the source adds nothing,
  and \<open>NaN\<close> is never accepted.
\<close>

theorem isValidBrazilianNumber_iff:
  "(isValidBrazilianNumber n =
     (length n = 13 \<and> take 2 n = ''55'' \<and> n ! 4 = CHR ''9'' \<and>
      (case parseInt [n ! 2, n ! 3] of
         None \<Rightarrow> False
       | Some d \<Rightarrow>
           d \<in> {11, 12, 13, 14, 15, 16, 17, 18, 19, 21, 22, 24, 27, 28, 31, 32, 33, 34, 35, 37,
                 38, 41, 42, 43, 44, 45, 46, 47, 48, 49, 51, 53, 54, 55, 61, 62, 63, 64, 65, 66,
                 67, 68, 69, 71, 73, 74, 75, 77, 79, 81, 82, 83, 84, 85, 86, 87, 88, 89, 91, 92,
                 93, 94, 95, 96, 97, 98, 99})))
   \<and> length validDDDs = 67 \<and> distinct validDDDs"
proof -
  have count: "length validDDDs = 67 \<and> distinct validDDDs"
    by (simp add: validDDDs_def)
  have main: "isValidBrazilianNumber n =
     (length n = 13 \<and> take 2 n = ''55'' \<and> n ! 4 = CHR ''9'' \<and>
      (case parseInt [n ! 2, n ! 3] of None \<Rightarrow> False | Some d \<Rightarrow> d \<in> set validDDDs))"
  proof (cases "length n = 13")
    case False
    thus ?thesis by (simp add: isValidBrazilianNumber_def)
  next
    case True
    hence ne: "n \<noteq> []" by auto
    have "isValidBrazilianNumber n =
        (take 2 n = ''55'' \<and> n ! 4 = CHR ''9'' \<and>
         \<not> (num_lt (parseInt [n ! 2, n ! 3]) 11 \<or> num_gt (parseInt [n ! 2, n ! 3]) 99) \<and>
         includes_num validDDDs (parseInt [n ! 2, n ! 3]))"
      using True ne
      by (simp add: isValidBrazilianNumber_def substring_2_4 charAt_def startsWith_55 Let_def)
    thus ?thesis using True by (simp add: ddd_check)
  qed
  show ?thesis unfolding main using count by (simp only: validDDDs_set)
qed

subsection \<open>The normaliser\<close>

text \<open>
  Claim C5. For every input string, with \<open>d\<close> the input stripped of all its non-digit
  characters, \<open>cleanPhoneNumber\<close> returns \<open>d\<close> itself if \<open>d\<close> has 13 digits and starts with
  \<open>55\<close>; \<open>55\<close> followed by \<open>d\<close> if \<open>d\<close> has 11 digits; \<open>55\<close>, the first two digits of \<open>d\<close>,
  \<open>9\<close> and the last eight digits of \<open>d\<close> if \<open>d\<close> has 10 digits; and \<open>null\<close> for every other
  length and for 13 digits that do not start with \<open>55\<close>.
\<close>

theorem cleanPhoneNumber_cases:
  fixes raw :: string
  defines "d \<equiv> filter isDigit raw"
  shows "(length d = 13 \<and> take 2 d = ''55'' \<longrightarrow> cleanPhoneNumber raw = Some d) \<and>
         (length d = 11 \<longrightarrow> cleanPhoneNumber raw = Some (''55'' @ d)) \<and>
         (length d = 10 \<longrightarrow>
            cleanPhoneNumber raw = Some (''55'' @ take 2 d @ ''9'' @ drop (length d - 8) d)) \<and>
         (length d \<notin> {10, 11, 13} \<or> (length d = 13 \<and> take 2 d \<noteq> ''55'') \<longrightarrow>
            cleanPhoneNumber raw = None)"
proof (cases "raw = []")
  case True
  thus ?thesis by (simp add: d_def cleanPhoneNumber_unfold)
next
  case False
  thus ?thesis by (simp add: d_def cleanPhoneNumber_unfold)
qed

theorem cleanPhoneNumber_cases_witness:
  "cleanPhoneNumber ''+55 (11) 99999-9999'' = Some ''5511999999999'' \<and>
   cleanPhoneNumber ''(21) 98888-7777'' = Some ''5521988887777'' \<and>
   cleanPhoneNumber ''11 3123-4567'' = Some ''5511931234567'' \<and>
   cleanPhoneNumber ''12345'' = None \<and>
   cleanPhoneNumber ''+44 1199 9999 999'' = None"
  using cleanPhoneNumber_cases[of "''+55 (11) 99999-9999''"]
        cleanPhoneNumber_cases[of "''(21) 98888-7777''"]
        cleanPhoneNumber_cases[of "''11 3123-4567''"]
        cleanPhoneNumber_cases[of "''12345''"]
        cleanPhoneNumber_cases[of "''+44 1199 9999 999''"]
  by (simp add: isDigit_def)

subsection \<open>Contacts at ingestion\<close>

text \<open>
  Claim C9 says that every contact returned by \<open>parseCSV\<close> has a number of exactly 13
  digits whose character at index 4 is the mobile marker \<open>9\<close>. The second half fails: an
  11-digit field is only prefixed with \<open>55\<close>, whatever its third digit is, and a 13-digit
  field starting with \<open>55\<close> is taken as it is.
\<close>

theorem parseCSV_marker_counterexample:
  "parseCSV cex9_source = Inr [cex9_contact] \<and> number cex9_contact ! 4 = CHR ''8''"
  by (simp add: parseCSV_def cex9_source_def cex9_contact_def on_data_def or_else_def truthy_def
        cleanPhoneNumber_def stripNonDigits_def isDigit_def Let_def)

text \<open>
  Claim C9, as amended. Every contact returned by \<open>parseCSV\<close> has a number of exactly 13
  characters, all of them digits; the marker \<open>9\<close> at index 4 holds for the contacts that
  \<open>validateContacts\<close> keeps in its \<open>valid\<close> list, which is the list a campaign is started
  with.
\<close>

theorem parseCSV_numbers:
  "(parseCSV src = Inr cs \<and> c \<in> set cs \<longrightarrow>
      length (number c) = 13 \<and> list_all isDigit (number c)) \<and>
   (c \<in> set (fst (validateContacts cs)) \<longrightarrow>
      c \<in> set cs \<and> number c ! 4 = CHR ''9'')"
proof -
  have "list_all canonical (fold on_data rows [])" for rows
    by (rule fold_on_data_inv) simp
  hence a: "parseCSV src = Inr cs \<Longrightarrow> c \<in> set cs \<Longrightarrow> canonical c"
    by (cases src) (auto simp: parseCSV_def Let_def list_all_iff split: option.splits)
  have b: "c \<in> set (fst (validateContacts cs)) \<Longrightarrow>
      c \<in> set cs \<and> number c ! 4 = CHR ''9''"
    by (simp add: validateContacts_eq isValid_marker)
  show ?thesis using a b unfolding canonical_def by blast
qed

theorem parseCSV_numbers_witness:
  "parseCSV wit9_source = Inr [wit9_contact] \<and>
   wit9_contact \<in> set (fst (validateContacts [wit9_contact])) \<and>
   length (number wit9_contact) = 13 \<and> number wit9_contact ! 4 = CHR ''9''"
proof -
  have p: "parseCSV wit9_source = Inr [wit9_contact]"
    by (simp add: parseCSV_def wit9_source_def wit9_contact_def on_data_def or_else_def truthy_def
          cleanPhoneNumber_def stripNonDigits_def isDigit_def substring_def substringFrom_def
          Let_def)
  have v: "wit9_contact \<in> set (fst (validateContacts [wit9_contact]))"
    using valid_example by (simp add: validateContacts_def wit9_contact_def)
  show ?thesis
    using p v parseCSV_numbers[of wit9_source "[wit9_contact]" wit9_contact] by simp
qed

section \<open>Properties of the shuffle\<close>

subsection \<open>The loop on the value of the array\<close>

lemma shuffle_loop_eq:
  "r < length st \<Longrightarrow>
   shuffle_loop pick r i st = st[r := fisher_yates pick i (st ! r)]"
proof (induction i arbitrary: st)
  case 0
  thus ?case by simp
next
  case (Suc k)
  show ?case using Suc.prems
    by (simp add: Let_def array_get_def array_set_def Suc.IH)
qed

lemma shuffleArray_eq:
  "shuffleArray pick a st =
     (length st, st @ [fisher_yates pick (length (st ! a) - 1) (st ! a)])"
  by (simp add: shuffleArray_def alloc_array_def shuffle_loop_eq)

lemma shuffled_copy_eq: "shuffled_copy pick xs = fisher_yates pick (length xs - 1) xs"
  by (simp add: shuffled_copy_def alloc_array_def shuffleArray_eq)

lemma length_fisher_yates [simp]: "length (fisher_yates pick i xs) = length xs"
  by (induction i arbitrary: xs) simp_all

lemma mset_fisher_yates:
  "i < length xs \<Longrightarrow> \<forall>k \<in> {1..i}. pick k \<le> k \<Longrightarrow> mset (fisher_yates pick i xs) = mset xs"
proof (induction i arbitrary: xs)
  case 0
  thus ?case by simp
next
  case (Suc k)
  let ?j = "pick (Suc k)"
  let ?xs' = "xs[Suc k := xs ! ?j, ?j := xs ! Suc k]"
  have "?j \<le> Suc k" using Suc.prems(2) by simp
  hence j: "?j < length xs" using Suc.prems(1) by simp
  have "mset ?xs' = mset xs" using mset_swap[of ?j xs "Suc k"] j Suc.prems(1) by simp
  moreover have "mset (fisher_yates pick k ?xs') = mset ?xs'"
    using Suc.prems by (intro Suc.IH) auto
  ultimately show ?case by simp
qed


lemma fisher_yates_cong:
  "\<forall>k \<in> {1..i}. p k = q k \<Longrightarrow> fisher_yates p i xs = fisher_yates q i xs"
  by (induction i arbitrary: xs) simp_all

lemma fisher_yates_beyond:
  "i < length xs \<Longrightarrow> \<forall>k \<in> {1..i}. pick k \<le> k \<Longrightarrow> i < m \<Longrightarrow>
   fisher_yates pick i xs ! m = xs ! m"
proof (induction i arbitrary: xs)
  case 0
  thus ?case by simp
next
  case (Suc k)
  let ?j = "pick (Suc k)"
  let ?xs' = "xs[Suc k := xs ! ?j, ?j := xs ! Suc k]"
  have jk: "?j \<le> Suc k" using Suc.prems(2) by simp
  have "fisher_yates pick k ?xs' ! m = ?xs' ! m"
    using Suc.prems by (intro Suc.IH) auto
  moreover have "?xs' ! m = xs ! m" using jk Suc.prems(3) by simp
  ultimately show ?case by simp
qed

lemma fisher_yates_last:
  assumes "Suc k < length xs" and "\<forall>i \<in> {1..Suc k}. pick i \<le> i"
  shows "fisher_yates pick (Suc k) xs ! Suc k = xs ! pick (Suc k)"
proof -
  let ?j = "pick (Suc k)"
  let ?xs' = "xs[Suc k := xs ! ?j, ?j := xs ! Suc k]"
  have jk: "?j \<le> Suc k" using assms(2) by simp
  have "fisher_yates pick k ?xs' ! Suc k = ?xs' ! Suc k"
    using assms by (intro fisher_yates_beyond) auto
  moreover have "?xs' ! Suc k = xs ! ?j"
    using assms(1) jk by (cases "?j = Suc k") (simp_all add: nth_list_update)
  ultimately show ?thesis by simp
qed

lemma fisher_yates_inj:
  "distinct xs \<Longrightarrow> i < length xs \<Longrightarrow> \<forall>k \<in> {1..i}. p k \<le> k \<Longrightarrow> \<forall>k \<in> {1..i}. q k \<le> k \<Longrightarrow>
   fisher_yates p i xs = fisher_yates q i xs \<Longrightarrow> \<forall>k \<in> {1..i}. p k = q k"
proof (induction i arbitrary: xs)
  case 0
  thus ?case by simp
next
  case (Suc k)
  have pk: "p (Suc k) \<le> Suc k" and qk: "q (Suc k) \<le> Suc k"
    using Suc.prems(3,4) by simp_all
  have "xs ! p (Suc k) = xs ! q (Suc k)"
    using fisher_yates_last[OF Suc.prems(2) Suc.prems(3)]
          fisher_yates_last[OF Suc.prems(2) Suc.prems(4)] Suc.prems(5) by simp
  hence top: "p (Suc k) = q (Suc k)"
    using Suc.prems(1,2) pk qk by (simp add: nth_eq_iff_index_eq)
  let ?xs' = "xs[Suc k := xs ! p (Suc k), p (Suc k) := xs ! Suc k]"
  have d: "distinct ?xs'"
    using Suc.prems(1,2) pk distinct_swap[of "Suc k" xs "p (Suc k)"] by simp
  have e: "fisher_yates p k ?xs' = fisher_yates q k ?xs'"
    using Suc.prems(5) top by simp
  have "\<forall>i \<in> {1..k}. p i = q i"
    using Suc.prems(2,3,4) by (intro Suc.IH[OF d _ _ _ e]) auto
  thus ?case using top by (auto simp: le_Suc_eq)
qed

lemma fisher_yates_surj:
  "distinct xs \<Longrightarrow> i < length xs \<Longrightarrow> mset ys = mset xs \<Longrightarrow>
   \<forall>m. i < m \<longrightarrow> m < length xs \<longrightarrow> ys ! m = xs ! m \<Longrightarrow>
   \<exists>p. (\<forall>k. p k \<le> k) \<and> fisher_yates p i xs = ys"
proof (induction i arbitrary: xs)
  case 0
  have len: "length ys = length xs" using 0(3) by (rule mset_eq_length)
  have dy: "distinct ys" using 0(1,3) by (metis mset_eq_imp_distinct_iff)
  have "ys ! 0 = xs ! 0"
  proof (rule ccontr)
    assume ne: "ys ! 0 \<noteq> xs ! 0"
    have "xs ! 0 \<in> set ys" using 0(2,3) by (metis mset_eq_setD nth_mem)
    then obtain m where m: "m < length ys" "ys ! m = xs ! 0" by (auto simp: in_set_conv_nth)
    have "m \<noteq> 0" using ne m(2) by (intro notI) simp
    hence "ys ! m = xs ! m" using 0(4) m(1) len by simp
    hence "xs ! m = xs ! 0" using m(2) by simp
    thus False using 0(1,2) m(1) len \<open>m \<noteq> 0\<close> by (simp add: nth_eq_iff_index_eq)
  qed
  hence "ys ! m = xs ! m" if "m < length xs" for m
    using 0(4) that by (cases m) simp_all
  hence "ys = xs" using len by (intro nth_equalityI) simp_all
  thus ?case by (intro exI[of _ "\<lambda>k. 0"]) simp
next
  case (Suc k)
  have len: "length ys = length xs" using Suc.prems(3) by (rule mset_eq_length)
  have dy: "distinct ys" using Suc.prems(1,3) by (metis mset_eq_imp_distinct_iff)
  have "ys ! Suc k \<in> set xs" using Suc.prems(2,3) len by (metis mset_eq_setD nth_mem)
  then obtain j where j: "j < length xs" "xs ! j = ys ! Suc k" by (auto simp: in_set_conv_nth)
  have jk: "j \<le> Suc k"
  proof (rule ccontr)
    assume "\<not> j \<le> Suc k"
    hence gt: "Suc k < j" by simp
    hence "ys ! j = xs ! j" using Suc.prems(4) j(1) by simp
    hence "ys ! j = ys ! Suc k" using j(2) by simp
    thus False using dy gt j(1) len Suc.prems(2) by (simp add: nth_eq_iff_index_eq)
  qed
  let ?xs' = "xs[Suc k := xs ! j, j := xs ! Suc k]"
  have d: "distinct ?xs'" using Suc.prems(1,2) j(1) distinct_swap[of "Suc k" xs j] by simp
  have ms: "mset ys = mset ?xs'" using mset_swap[of j xs "Suc k"] j(1) Suc.prems(2,3) by simp
  have top: "?xs' ! Suc k = ys ! Suc k"
    using Suc.prems(2) j by (cases "j = Suc k") (simp_all add: nth_list_update)
  have agree: "\<forall>m. k < m \<longrightarrow> m < length ?xs' \<longrightarrow> ys ! m = ?xs' ! m"
  proof (intro allI impI)
    fix m assume m: "k < m" "m < length ?xs'"
    show "ys ! m = ?xs' ! m"
    proof (cases "m = Suc k")
      case True thus ?thesis using top by simp
    next
      case False
      hence "Suc k < m" using m(1) by simp
      thus ?thesis using Suc.prems(4) m(2) jk by simp
    qed
  qed
  have "k < length ?xs'" using Suc.prems(2) by simp
  from Suc.IH[OF d this ms agree] obtain p0 where
    p0: "\<forall>i. p0 i \<le> i" "fisher_yates p0 k ?xs' = ys" by blast
  let ?p = "p0(Suc k := j)"
  have "\<forall>i. ?p i \<le> i" using p0(1) jk by simp
  moreover have "fisher_yates ?p (Suc k) xs = ys"
  proof -
    have "fisher_yates ?p (Suc k) xs = fisher_yates ?p k ?xs'" by simp
    also have "\<dots> = fisher_yates p0 k ?xs'" by (rule fisher_yates_cong) simp
    finally show ?thesis using p0(2) by simp
  qed
  ultimately show ?case by blast
qed


lemma valid_picks_upto: "0 < n \<Longrightarrow> valid_picks n pick = (\<forall>k \<in> {1..n - 1}. pick k \<le> k)"
  by (cases n) (auto simp: valid_picks_def)

lemma shuffle_result_eq:
  "shuffle_result pick a st = fisher_yates pick (length (st ! a) - 1) (st ! a)"
  by (simp add: shuffle_result_def shuffleArray_eq)

lemma fisher_yates_map:
  "i < length xs \<Longrightarrow> \<forall>k \<in> {1..i}. pick k \<le> k \<Longrightarrow>
   fisher_yates pick i (map f xs) = map f (fisher_yates pick i xs)"
proof (induction i arbitrary: xs)
  case 0
  thus ?case by simp
next
  case (Suc k)
  let ?j = "pick (Suc k)"
  have "?j \<le> Suc k" using Suc.prems(2) by simp
  hence j: "?j < length xs" using Suc.prems(1) by simp
  let ?xs' = "xs[Suc k := xs ! ?j, ?j := xs ! Suc k]"
  have "(map f xs)[Suc k := map f xs ! ?j, ?j := map f xs ! Suc k] = map f ?xs'"
    using j Suc.prems(1) by (simp add: map_update)
  moreover have "fisher_yates pick k (map f ?xs') = map f (fisher_yates pick k ?xs')"
    using Suc.prems by (intro Suc.IH) auto
  ultimately show ?case by simp
qed

lemma shuffle_result_by_index:
  assumes "valid_picks (length (st ! a)) pick"
  shows "shuffle_result pick a st =
         map ((!) (st ! a)) (shuffle_result pick 0 [[0..<length (st ! a)]])"
proof (cases "length (st ! a) = 0")
  case True
  thus ?thesis by (simp add: shuffle_result_eq)
next
  case False
  let ?n = "length (st ! a)"
  have "fisher_yates pick (?n - 1) (map ((!) (st ! a)) [0..<?n]) =
        map ((!) (st ! a)) (fisher_yates pick (?n - 1) [0..<?n])"
    using False assms by (intro fisher_yates_map) (simp_all add: valid_picks_upto)
  thus ?thesis by (simp add: shuffle_result_eq map_nth)
qed

subsection \<open>The shuffle is a permutation, of a copy, and reaches every ordering once\<close>

text \<open>
  Claim C8. For every input array and every sequence of index choices (each \<open>pick i\<close>
  between \<open>0\<close> and \<open>i\<close>), \<open>shuffleArray\<close> returns a new array that holds a permutation of
  the input (the same multiset of elements) and leaves the input array, and every other
  array of the store, as it was. The arrangement is the image of the arrangement of the
  positions \<open>0..n-1\<close> under the same choices. On an array of distinct elements every
  ordering is produced by some sequence of choices, and two sequences that produce the
  same ordering are the same sequence: the choice sequences and the orderings correspond
  one to one, so uniform independent choices make every ordering equally likely.
\<close>

theorem shuffleArray_permutation:
  "(array < length st \<and> valid_picks (length (st ! array)) pick \<longrightarrow>
      (case shuffleArray pick array st of
         (shuffled, st') \<Rightarrow>
            mset (st' ! shuffled) = mset (st ! array) \<and>
            shuffled = length st \<and> length st' = Suc (length st) \<and>
            st' ! array = st ! array \<and> take (length st) st' = st)) \<and>
   (valid_picks (length (st ! array)) pick \<longrightarrow>
      shuffle_result pick array st =
        map ((!) (st ! array)) (shuffle_result pick 0 [[0..<length (st ! array)]])) \<and>
   (distinct (st ! array) \<and> mset ys = mset (st ! array) \<longrightarrow>
      (\<exists>p. (\<forall>i. p i \<le> i) \<and> shuffle_result p array st = ys)) \<and>
   (distinct (st ! array) \<and> valid_picks (length (st ! array)) p \<and>
    valid_picks (length (st ! array)) q \<and> shuffle_result p array st = shuffle_result q array st \<longrightarrow>
      (\<forall>i \<in> {1..<length (st ! array)}. p i = q i))"
proof (intro conjI impI)
  let ?xs = "st ! array"
  let ?n = "length ?xs"
  { assume a: "array < length st \<and> valid_picks ?n pick"
    have "mset (fisher_yates pick (?n - 1) ?xs) = mset ?xs"
    proof (cases "?n = 0")
      case True thus ?thesis by simp
    next
      case False
      thus ?thesis using a by (intro mset_fisher_yates) (simp_all add: valid_picks_upto)
    qed
    thus "case shuffleArray pick array st of
         (shuffled, st') \<Rightarrow>
            mset (st' ! shuffled) = mset (st ! array) \<and>
            shuffled = length st \<and> length st' = Suc (length st) \<and>
            st' ! array = st ! array \<and> take (length st) st' = st"
      using a by (simp add: shuffleArray_eq nth_append) }
  { assume "valid_picks ?n pick"
    thus "shuffle_result pick array st = map ((!) ?xs) (shuffle_result pick 0 [[0..<?n]])"
      by (rule shuffle_result_by_index) }
  { assume a: "distinct ?xs \<and> mset ys = mset ?xs"
    show "\<exists>p. (\<forall>i. p i \<le> i) \<and> shuffle_result p array st = ys"
    proof (cases "?n = 0")
      case True
      hence "ys = []" "?xs = []" using a by auto
      thus ?thesis by (intro exI[of _ "\<lambda>i. 0"]) (simp add: shuffle_result_eq)
    next
      case False
      hence "?n - 1 < ?n" by simp
      moreover have "\<forall>m. ?n - 1 < m \<longrightarrow> m < ?n \<longrightarrow> ys ! m = ?xs ! m" by auto
      ultimately have "\<exists>p. (\<forall>k. p k \<le> k) \<and> fisher_yates p (?n - 1) ?xs = ys"
        using a by (intro fisher_yates_surj) simp_all
      thus ?thesis by (simp add: shuffle_result_eq)
    qed }
  { assume a: "distinct ?xs \<and> valid_picks ?n p \<and> valid_picks ?n q \<and>
        shuffle_result p array st = shuffle_result q array st"
    show "\<forall>i \<in> {1..<?n}. p i = q i"
    proof (cases "?n = 0")
      case True thus ?thesis by simp
    next
      case False
      hence n: "?n - 1 < ?n" "0 < ?n" by simp_all
      have "\<forall>k \<in> {1..?n - 1}. p k = q k"
        using a n by (intro fisher_yates_inj[of ?xs]) (simp_all add: valid_picks_upto shuffle_result_eq)
      thus ?thesis using n by (cases ?n) auto
    qed }
qed

theorem shuffleArray_permutation_witness:
  "shuffleArray (\<lambda>i. 0) 0 [[10, 20, 30 :: nat]] = (1, [[10, 20, 30], [20, 30, 10]]) \<and>
   mset [20, 30, 10 :: nat] = mset [10, 20, 30] \<and>
   (\<exists>p. (\<forall>i. p i \<le> i) \<and> shuffle_result p 0 [[10, 20, 30 :: nat]] = [30, 20, 10])"
proof -
  have e: "shuffleArray (\<lambda>i. 0) 0 [[10, 20, 30 :: nat]] = (1, [[10, 20, 30], [20, 30, 10]])"
    by (simp add: shuffleArray_def alloc_array_def array_get_def array_set_def numeral_2_eq_2 Let_def)
  have v: "valid_picks (length ([[10, 20, 30 :: nat]] ! 0)) (\<lambda>i. 0)"
    by (simp add: valid_picks_def)
  have d: "distinct ([[10, 20, 30 :: nat]] ! 0) \<and> mset [30, 20, 10] = mset ([[10, 20, 30 :: nat]] ! 0)"
    by simp
  show ?thesis
    using e v d shuffleArray_permutation[of 0 "[[10, 20, 30 :: nat]]" "\<lambda>i. 0" "[30, 20, 10]" "\<lambda>i. 0" "\<lambda>i. 0"]
    by simp
qed

section \<open>Properties of the campaign engine\<close>

subsection \<open>Fields after each operation\<close>

lemma finish_fields:
  "isSending (finish tid t w) = False"
  "tasks (finish tid t w) = (tasks w)[tid := t\<lparr>waiting := Returned\<rparr>]"
  "attempts (finish tid t w) = attempts w"
  "dispatched (finish tid t w) = dispatched w"
  "clock (finish tid t w) = clock w"
  "currentCampaign (finish tid t w) = currentCampaign w"
  "isConnected (finish tid t w) = isConnected w"
  by (simp_all add: finish_def Let_def split: option.split)

lemma finish_emitted:
  "emitted (finish tid t w) =
     emitted w @
     (case currentCampaign w of
        None \<Rightarrow> []
      | Some c \<Rightarrow>
          [CampaignFinished (sent c) (failed c) (total c)
             (mathRound (js_div (of_nat (clock w) - of_nat (startTime c)) 1000))])"
  by (simp add: finish_def Let_def split: option.split)

lemma loop_head_stopped: "\<not> isSending w \<Longrightarrow> loop_head tid t w = finish tid t w"
  by (simp add: loop_head_def)

lemma loop_head_fields:
  "currentCampaign (loop_head tid t w) = currentCampaign w"
  "dispatched (loop_head tid t w) = dispatched w"
  "clock (loop_head tid t w) = clock w"
  "length (tasks (loop_head tid t w)) = length (tasks w)"
  "isConnected (loop_head tid t w) = isConnected w"
  by (simp_all add: loop_head_def finish_fields)

lemma stopBulkSend_fields:
  "isSending (stopBulkSend w) = False"
  "tasks (stopBulkSend w) = tasks w"
  "attempts (stopBulkSend w) = attempts w"
  "dispatched (stopBulkSend w) = dispatched w"
  "clock (stopBulkSend w) = clock w"
  "currentCampaign (stopBulkSend w) = currentCampaign w"
  "isConnected (stopBulkSend w) = isConnected w"
  "emitted (stopBulkSend w) = emitted w @ [CampaignStopped]"
  by (simp_all add: stopBulkSend_def)

text \<open>After the pacing test fails the loop condition fails too: the call runs to its end.\<close>

lemma send_settles_unfold:
  "send_settles tid e delay w =
     (if tid < length (tasks w) \<and> waiting (tasks w ! tid) = AwaitSend then
        let t = tasks w ! tid;
            contact = shuffledContacts t ! loop_i t;
            r = sendMessage e contact (arg_imagePath t) (arg_audioPath t) (arg_message t);
            w1 = w\<lparr>dispatched := dispatched w @ fst r\<rparr>
        in case currentCampaign w of
             None \<Rightarrow> w1\<lparr>tasks := (tasks w)[tid := t\<lparr>waiting := Returned\<rparr>]\<rparr>
           | Some c \<Rightarrow>
               let c' = (case snd r of
                           Inr _ \<Rightarrow> c\<lparr>sent := sent c + 1\<rparr>
                         | Inl _ \<Rightarrow> c\<lparr>failed := failed c + 1\<rparr>);
                   ev = CampaignProgress (sent c') (failed c') (total c') (number contact)
                          (case snd r of Inr _ \<Rightarrow> None | Inl err \<Rightarrow> Some err)
                          (progress_of c');
                   w2 = w1\<lparr>currentCampaign := Some c', emitted := emitted w @ [ev]\<rparr>
               in if Suc (loop_i t) < length (shuffledContacts t) \<and> isSending w
                  then w2\<lparr>tasks := (tasks w)[tid := t\<lparr>waiting := AwaitSleep (clock w + delay)\<rparr>]\<rparr>
                  else finish tid (t\<lparr>loop_i := loop_i t + 1\<rparr>) w2
      else w)"
proof -
  have arith: "(int i < int n - 1) = (Suc i < n)" for i n :: nat by auto
  show ?thesis
    unfolding send_settles_def arith
    by (simp add: Let_def loop_head_def split: prod.split option.split)
qed


subsection \<open>After a stop\<close>

lemma send_settles_stopped:
  assumes "\<not> isSending w"
  shows "\<not> isSending (send_settles tid e delay w)"
    and "attempts (send_settles tid e delay w) = attempts w"
    and "length (tasks (send_settles tid e delay w)) = length (tasks w)"
    and "waiting (tasks (send_settles tid e delay w) ! k) = AwaitSleep wake \<Longrightarrow>
         waiting (tasks w ! k) = AwaitSleep wake"
  using assms
  by (auto simp: send_settles_unfold Let_def finish_fields nth_list_update
        split: option.splits if_splits)

lemma timer_fires_stopped:
  assumes "\<not> isSending w"
  shows "\<not> isSending (timer_fires tid w)"
    and "attempts (timer_fires tid w) = attempts w"
    and "length (tasks (timer_fires tid w)) = length (tasks w)"
    and "waiting (tasks (timer_fires tid w) ! k) = AwaitSleep wake \<Longrightarrow>
         waiting (tasks w ! k) = AwaitSleep wake"
  using assms
  by (auto simp: timer_fires_def loop_head_stopped finish_fields nth_list_update
        split: suspension.splits if_splits)

lemma step_stopped:
  assumes "\<not> isSending w" and "\<not> is_start a"
  shows "\<not> isSending (step a w)"
    and "attempts (step a w) = attempts w"
    and "length (tasks (step a w)) = length (tasks w)"
    and "waiting (tasks (step a w) ! k) = AwaitSleep wake \<Longrightarrow>
         waiting (tasks w ! k) = AwaitSleep wake"
  using assms send_settles_stopped[of w] timer_fires_stopped[of w]
  by (cases a; simp add: is_start_def stopBulkSend_fields)+

lemma run_stopped:
  assumes "\<not> isSending w" and "no_start sched"
  shows "\<not> isSending (run sched w) \<and> attempts (run sched w) = attempts w \<and>
         length (tasks (run sched w)) = length (tasks w) \<and>
         (waiting (tasks (run sched w) ! k) = AwaitSleep wake \<longrightarrow>
            waiting (tasks w ! k) = AwaitSleep wake)"
  using assms
proof (induction sched arbitrary: w)
  case Nil
  thus ?case by (simp add: run_def)
next
  case (Cons a sched)
  have a: "\<not> is_start a" and s: "no_start sched"
    using Cons.prems(2) by (simp_all add: no_start_def)
  note st = step_stopped[OF Cons.prems(1) a]
  from Cons.IH[OF st(1) s] st(2,3) st(4)[of k wake]
  show ?case by (simp add: run_def)
qed

subsection \<open>A sleeping task\<close>

lemma clock_step: "clock w \<le> clock (step a w)"
  by (cases a)
     (auto simp: startBulkSend_def stopBulkSend_def send_settles_unfold timer_fires_def
        loop_head_fields finish_fields Let_def split: option.splits suspension.splits)

lemma clock_run: "clock w \<le> clock (run sched w)"
proof (induction sched arbitrary: w)
  case Nil
  show ?case by (simp add: run_def)
next
  case (Cons a sched)
  have "clock w \<le> clock (step a w)" by (rule clock_step)
  also have "\<dots> \<le> clock (run sched (step a w))" by (rule Cons.IH)
  finally show ?case by (simp add: run_def)
qed

lemma step_keeps_sleep:
  assumes "k < length (tasks w)" and "waiting (tasks w ! k) = AwaitSleep wake"
    and "clock w < wake"
  shows "k < length (tasks (step a w)) \<and> waiting (tasks (step a w) ! k) = AwaitSleep wake"
  using assms
  by (cases a)
     (auto simp: startBulkSend_def stopBulkSend_def send_settles_unfold timer_fires_def
        loop_head_def finish_def Let_def nth_append nth_list_update
        split: option.splits suspension.splits)

lemma run_keeps_sleep:
  assumes "k < length (tasks w)" and "waiting (tasks w ! k) = AwaitSleep wake"
    and "clock (run sched w) < wake"
  shows "k < length (tasks (run sched w)) \<and> waiting (tasks (run sched w) ! k) = AwaitSleep wake"
  using assms
proof (induction sched arbitrary: w)
  case Nil
  thus ?case by (simp add: run_def)
next
  case (Cons a sched)
  have r: "run (a # sched) w = run sched (step a w)" by (simp add: run_def)
  have "clock (step a w) \<le> clock (run sched (step a w))" by (rule clock_run)
  hence c: "clock (step a w) < wake" using Cons.prems(3) r by simp
  have "clock w \<le> clock (step a w)" by (rule clock_step)
  hence "clock w < wake" using c by simp
  from step_keeps_sleep[OF Cons.prems(1,2) this, of a]
  have "k < length (tasks (step a w))" "waiting (tasks (step a w) ! k) = AwaitSleep wake"
    by simp_all
  from Cons.IH[OF this] Cons.prems(3) r show ?case by simp
qed

end
